theory Spec2Isabelle
  imports Complex_Main "HOL-Library.Sublist" "HOL-Library.Word"
begin

section \<open>Data model of \<open>src/app/main.py\<close>\<close>

text \<open>
  A Python \<open>str\<close> is a sequence of Unicode code points. A code point is a natural number,
  so that the whitespace class of \<open>str.strip\<close> and of the regular expression \<open>\s\<close> can be
  written out in full. \<open>ustr\<close> turns an ASCII literal into such a string.
\<close>

type_synonym pstr = "nat list"

type_synonym bytes = "8 word list"

abbreviation ustr :: "string \<Rightarrow> pstr" where
  "ustr s \<equiv> map of_char s"

text \<open>
  A decoded JSON value, as the Slack client hands it over. A \<open>dict\<close> keeps its insertion
  order (\<open>values()\<close> iterates in that order), so it is an association list; its keys are
  distinct, and \<open>map_of\<close> is \<open>dict.get\<close>.
\<close>

datatype json =
    JNull
  | JBool bool
  | JNum rat
  | JStr pstr
  | JList "json list"
  | JDict "(pstr \<times> json) list"

text \<open>
  An entry of \<open>msg["files"]\<close>, with the two fields the code reads through \<open>f.get\<close>:
  \<open>None\<close> is an absent (or null) field.
\<close>

record slack_file =
  mimetype :: "pstr option"
  url_private_download :: "pstr option"

text \<open>
  A thread message, with the fields the code reads. \<open>ts\<close> is the sort key
  \<open>float(m["ts"])\<close>, a value of a linear order; the other fields are read through
  \<open>msg.get\<close>, \<open>None\<close> being an absent field.
\<close>

record 't message =
  ts :: 't
  bot_id :: "pstr option"
  subtype :: "pstr option"
  mtext :: "pstr option"
  blocks :: "json option"
  files :: "slack_file list"

text \<open>\<open>types.Part.from_text\<close>, \<open>types.Part.from_bytes\<close> and \<open>types.Content\<close>.\<close>

datatype part =
    Text pstr
  | Bytes bytes pstr

record content =
  role :: pstr
  parts :: "part list"

text \<open>
  The exceptions of the model. \<open>http_client.get\<close> raises on a timeout or a transport
  error, \<open>raise_for_status\<close> raises \<open>HTTPStatusError\<close>, and \<open>range\<close> raises
  \<open>ValueError\<close> on a zero step.
\<close>

datatype exn =
    TimeoutException
  | TransportError
  | HTTPStatusError nat
  | ValueError

text \<open>What the code reads of an \<open>httpx.Response\<close>.\<close>

record response =
  status_code :: nat
  resp_text :: pstr
  resp_content :: bytes

text \<open>
  The network is an explicit state \<open>'w\<close>: \<open>http_client.get(url, headers=...)\<close> takes the
  state, returns the response or the exception it raises, and the new state.
\<close>

type_synonym 'w http_get = "pstr \<Rightarrow> 'w \<Rightarrow> (exn + response) \<times> 'w"

text \<open>
  What the code reads of an image returned by \<open>part.as_image()\<close>: its \<open>format\<close>, and
  \<open>save(buffer, format=...)\<close>, the bytes written for a format.
\<close>

record image =
  img_format :: "pstr option"
  img_save :: "pstr \<Rightarrow> bytes"

text \<open>A part of the model's response: \<open>part.thought\<close>, \<open>part.text\<close>, \<open>part.as_image()\<close>.\<close>

record rpart =
  thought :: "bool option"
  rtext :: "pstr option"
  as_image :: "image option"

text \<open>\<open>GenerateContentResponse\<close>: \<open>response.parts\<close> and \<open>response.text\<close>.\<close>

record gresponse =
  gparts :: "rpart list"
  gtext :: "pstr option"

text \<open>
  The model invoker \<open>call_gemini\<close> run through \<open>asyncio.to_thread\<close>: it returns the
  response, or \<open>Inl s\<close> when it raises an exception \<open>e\<close> with \<open>str(e) = s\<close>.
\<close>

type_synonym 'w invoker = "content list \<Rightarrow> 'w \<Rightarrow> (pstr + gresponse) \<times> 'w"

text \<open>
  What the handler delivers: \<open>say(blocks=..., text=chunk, thread_ts=...)\<close> and
  \<open>client.files_upload_v2\<close> of the image number \<open>idx\<close> (file name
  \<open>gemini-response-{idx}.png\<close>).
\<close>

datatype action =
    Say pstr
  | FilesUpload nat bytes

section \<open>Strings\<close>

text \<open>
  \<open>str.isspace\<close> of one code point, which is also the class \<open>\s\<close> of a \<open>str\<close> pattern.
\<close>

definition isspace :: "nat \<Rightarrow> bool" where
  "isspace c \<longleftrightarrow>
     (9 \<le> c \<and> c \<le> 13) \<or> (28 \<le> c \<and> c \<le> 32) \<or> c = 133 \<or> c = 160 \<or> c = 5760 \<or>
     (8192 \<le> c \<and> c \<le> 8202) \<or> c = 8232 \<or> c = 8233 \<or> c = 8239 \<or> c = 8287 \<or> c = 12288"

text \<open>\<open>s.strip()\<close>.\<close>

definition strip :: "pstr \<Rightarrow> pstr" where
  "strip s = rev (dropWhile isspace (rev (dropWhile isspace s)))"

text \<open>\<open>sep.join(xs)\<close>.\<close>

fun join :: "pstr \<Rightarrow> pstr list \<Rightarrow> pstr" where
  "join sep [] = []"
| "join sep [x] = x"
| "join sep (x # y # ys) = x @ sep @ join sep (y # ys)"

text \<open>
  One match of the pattern \<open><@[^>]+>\s*\<close> at the start of \<open>s\<close>: \<open>Some\<close> of what follows the
  match, \<open>None\<close> when the pattern does not match there. \<open>[^>]+\<close> is greedy and cannot cross a
  \<open>>\<close>, so it takes the whole run up to the next \<open>>\<close>, which must be non-empty and followed
  by \<open>>\<close>; \<open>\s*\<close> then takes all the whitespace that follows. (60 is \<open><\<close>, 64 is \<open>@\<close>,
  62 is \<open>>\<close>.)
\<close>

fun match_mention :: "pstr \<Rightarrow> pstr option" where
  "match_mention (c1 # c2 # s) =
     (if c1 = 60 \<and> c2 = 64 then
        (let run = takeWhile (\<lambda>c. c \<noteq> 62) s; after = dropWhile (\<lambda>c. c \<noteq> 62) s
         in if run \<noteq> [] \<and> after \<noteq> [] then Some (dropWhile isspace (tl after)) else None)
      else None)"
| "match_mention _ = None"

text \<open>
  \<open>re.sub(r"<@[^>]+>\s*", "", text)\<close>: the text is scanned from the left; where the pattern
  matches, the match is dropped and the scan goes on after it; elsewhere one character is
  kept. (A match is never empty.)
\<close>

function sub_mentions :: "pstr \<Rightarrow> pstr" where
  "sub_mentions [] = []"
| "sub_mentions (c # cs) =
     (case match_mention (c # cs) of
        Some r \<Rightarrow> sub_mentions r
      | None \<Rightarrow> c # sub_mentions cs)"
  by pat_completeness auto
termination
proof (relation "measure length")
  fix c :: nat and cs r :: pstr
  assume m: "match_mention (c # cs) = Some r"
  show "(r, c # cs) \<in> measure length"
  proof (cases cs)
    case Nil
    with m show ?thesis by simp
  next
    case (Cons c2 s')
    let ?after = "dropWhile (\<lambda>c. c \<noteq> 62) s'"
    from m Cons have r: "r = dropWhile isspace (tl ?after)"
      by (auto simp: Let_def split: if_splits)
    have "length r \<le> length (tl ?after)"
      unfolding r by (rule length_dropWhile_le)
    also have "\<dots> \<le> length ?after" by simp
    also have "\<dots> \<le> length s'" by (rule length_dropWhile_le)
    finally show ?thesis using Cons by simp
  qed
qed simp_all

section \<open>Context assembly: \<open>_extract_text\<close> and \<open>_build_contents_from_thread\<close>\<close>

text \<open>
  \<open>_extract_text\<close>: in a dict, the value of the key \<open>text\<close> when it is a string, then the
  texts of every value in order; in a list, the texts of every item in order; nothing in a
  scalar.
\<close>

fun extract_text :: "json \<Rightarrow> pstr list" where
  "extract_text (JDict kvs) =
     (case map_of kvs (ustr ''text'') of Some (JStr t) \<Rightarrow> [t] | _ \<Rightarrow> [])
     @ concat (map (\<lambda>kv. extract_text (snd kv)) kvs)"
| "extract_text (JList items) = concat (map extract_text items)"
| "extract_text _ = []"

text \<open>
  The specification's words for the same extraction, to be compared with \<open>_extract_text\<close>:
  every value of the nested structure is visited depth-first (a mapping or a sequence
  before its members, the members in their order), and a visited value has a \<open>text\<close> field
  when it is a mapping with a string under the key \<open>text\<close>; the fragments are the \<open>text\<close>
  fields of the visited values, in the order of the visit.
\<close>

fun depth_first :: "json \<Rightarrow> json list" where
  "depth_first (JDict kvs) = JDict kvs # concat (map (\<lambda>kv. depth_first (snd kv)) kvs)"
| "depth_first (JList items) = JList items # concat (map depth_first items)"
| "depth_first v = [v]"

definition text_field :: "json \<Rightarrow> pstr option" where
  "text_field v =
     (case v of
        JDict kvs \<Rightarrow> (case map_of kvs (ustr ''text'') of Some (JStr t) \<Rightarrow> Some t | _ \<Rightarrow> None)
      | _ \<Rightarrow> None)"

definition spec_extract_text :: "json \<Rightarrow> pstr list" where
  "spec_extract_text v = List.map_filter text_field (depth_first v)"

text \<open>Truth value of an optional string: \<open>None\<close> and \<open>""\<close> are false.\<close>

definition truthy :: "pstr option \<Rightarrow> bool" where
  "truthy x \<longleftrightarrow> (case x of None \<Rightarrow> False | Some s \<Rightarrow> s \<noteq> [])"

text \<open>\<open>x or ""\<close>.\<close>

definition or_empty :: "pstr option \<Rightarrow> pstr" where
  "or_empty x = (case x of None \<Rightarrow> [] | Some s \<Rightarrow> s)"

text \<open>Lines 55 and 56: \<open>is_bot\<close> and \<open>role\<close>.\<close>

definition is_bot :: "'t message \<Rightarrow> bool" where
  "is_bot msg \<longleftrightarrow> truthy (bot_id msg) \<or> subtype msg = Some (ustr ''bot_message'')"

definition role_of :: "'t message \<Rightarrow> pstr" where
  "role_of msg = (if is_bot msg then ustr ''model'' else ustr ''user'')"

text \<open>
  Lines 59 to 62, the text of a message: the mentions are removed from \<open>msg.get("text") or ""\<close>
  and the result is stripped; when that is empty, the texts of
  \<open>msg.get("blocks", [])\<close> are joined with newlines (code point 10) and stripped.
\<close>

definition derive_text :: "'t message \<Rightarrow> pstr" where
  "derive_text msg =
     (let text = strip (sub_mentions (or_empty (mtext msg)))
      in if text = []
         then strip (join [10] (extract_text (case blocks msg of None \<Rightarrow> JList [] | Some b \<Rightarrow> b)))
         else text)"

text \<open>Lines 73 to 76: \<open>supported\<close>.\<close>

definition supported :: "pstr \<Rightarrow> bool" where
  "supported mt \<longleftrightarrow>
     prefix (ustr ''image/'') mt \<or> prefix (ustr ''video/'') mt \<or>
     prefix (ustr ''audio/'') mt \<or> prefix (ustr ''text/'') mt \<or>
     mt = ustr ''application/pdf''"

text \<open>
  Lines 80 to 84: the request, then \<open>resp.raise_for_status()\<close>, which raises
  \<open>HTTPStatusError\<close> unless the status is a success (200 to 299).
\<close>

definition fetch :: "'w http_get \<Rightarrow> pstr \<Rightarrow> 'w \<Rightarrow> (exn + response) \<times> 'w" where
  "fetch get url w =
     (case get url w of
        (Inl e, w') \<Rightarrow> (Inl e, w')
      | (Inr resp, w') \<Rightarrow>
          if 200 \<le> status_code resp \<and> status_code resp \<le> 299 then (Inr resp, w')
          else (Inl (HTTPStatusError (status_code resp)), w'))"

text \<open>
  Lines 68 to 89, the body of the loop over \<open>msg.get("files", [])\<close> for one file \<open>f\<close>:
  \<open>ps\<close> is the list \<open>parts\<close> so far, and the result is the list after the body, or the
  exception that leaves the loop.
\<close>

definition file_step :: "'w http_get \<Rightarrow> slack_file \<Rightarrow> part list \<Rightarrow> 'w \<Rightarrow> (exn + part list) \<times> 'w" where
  "file_step get f ps w =
     (let mt = or_empty (mimetype f) in
      case url_private_download f of
        None \<Rightarrow> (Inr ps, w)
      | Some url \<Rightarrow>
          if url = [] then (Inr ps, w)
          else if \<not> supported mt then (Inr ps, w)
          else
            (case fetch get url w of
               (Inl e, w') \<Rightarrow> (Inl e, w')
             | (Inr resp, w') \<Rightarrow>
                 if prefix (ustr ''text/'') mt then (Inr (ps @ [Text (resp_text resp)]), w')
                 else (Inr (ps @ [Bytes (resp_content resp) mt]), w')))"

fun files_loop :: "'w http_get \<Rightarrow> slack_file list \<Rightarrow> part list \<Rightarrow> 'w \<Rightarrow> (exn + part list) \<times> 'w" where
  "files_loop get [] ps w = (Inr ps, w)"
| "files_loop get (f # fs) ps w =
     (case file_step get f ps w of
        (Inl e, w') \<Rightarrow> (Inl e, w')
      | (Inr ps', w') \<Rightarrow> files_loop get fs ps' w')"

text \<open>Lines 57 to 65: \<open>parts\<close> before the loop over the files.\<close>

definition initial_parts :: "'t message \<Rightarrow> part list" where
  "initial_parts msg = (let text = derive_text msg in if text \<noteq> [] then [Text text] else [])"

text \<open>
  Lines 55 to 92, the body of the loop over the sorted messages for one message: \<open>contents\<close>
  is the list so far, and a turn is appended when the message has parts.
\<close>

definition message_step ::
  "'w http_get \<Rightarrow> 't message \<Rightarrow> content list \<Rightarrow> 'w \<Rightarrow> (exn + content list) \<times> 'w" where
  "message_step get msg contents w =
     (case files_loop get (files msg) (initial_parts msg) w of
        (Inl e, w') \<Rightarrow> (Inl e, w')
      | (Inr ps, w') \<Rightarrow>
          (Inr (if ps \<noteq> [] then contents @ [\<lparr>role = role_of msg, parts = ps\<rparr>]
                else contents), w'))"

fun contents_loop ::
  "'w http_get \<Rightarrow> 't message list \<Rightarrow> content list \<Rightarrow> 'w \<Rightarrow> (exn + content list) \<times> 'w" where
  "contents_loop get [] contents w = (Inr contents, w)"
| "contents_loop get (msg # msgs) contents w =
     (case message_step get msg contents w of
        (Inl e, w') \<Rightarrow> (Inl e, w')
      | (Inr contents', w') \<Rightarrow> contents_loop get msgs contents' w')"

text \<open>Line 95: the turn that stands for an empty thread.\<close>

definition no_content :: content where
  "no_content = \<lparr>role = ustr ''user'', parts = [Text (ustr ''(no content)'')]\<rparr>"

text \<open>
  \<open>_build_contents_from_thread\<close>, from the messages \<open>history["messages"]\<close> that
  \<open>conversations_replies\<close> returned. \<open>sorted\<close> is stable, as \<open>sort_key\<close> is.
\<close>

definition build_contents_from_thread ::
  "'w http_get \<Rightarrow> ('t::linorder) message list \<Rightarrow> 'w \<Rightarrow> (exn + content list) \<times> 'w" where
  "build_contents_from_thread get msgs w =
     (case contents_loop get (sort_key ts msgs) [] w of
        (Inl e, w') \<Rightarrow> (Inl e, w')
      | (Inr contents, w') \<Rightarrow> (Inr (if contents = [] then [no_content] else contents), w'))"

section \<open>Rendering: \<open>_split_text\<close> and \<open>_format_model_response\<close>\<close>

text \<open>\<open>list(range(i, stop, step))\<close> for a positive \<open>step\<close>.\<close>

function range_step :: "nat \<Rightarrow> nat \<Rightarrow> nat \<Rightarrow> nat list" where
  "range_step i stop step =
     (if step = 0 \<or> stop \<le> i then [] else i # range_step (i + step) stop step)"
  by pat_completeness auto
termination
  by (relation "measure (\<lambda>(i, stop, step). stop - i)") auto

declare range_step.simps [simp del]

text \<open>
  \<open>_split_text\<close>. A zero \<open>limit\<close> makes \<open>range\<close> raise, a negative one makes it empty;
  for a positive one, \<open>text[i : i + limit]\<close> is \<open>take limit (drop i text)\<close>.
\<close>

definition split_text :: "'a list \<Rightarrow> int \<Rightarrow> exn + 'a list list" where
  "split_text text limit =
     (if text = [] then Inr [[]]
      else if limit = 0 then Inl ValueError
      else if limit < 0 then Inr []
      else Inr (map (\<lambda>i. take (nat limit) (drop i text))
                  (range_step 0 (length text) (nat limit))))"

text \<open>
  Lines 120 to 122: the bytes that \<open>image.save(buffer, format=image.format or "PNG")\<close>
  leaves in the buffer.
\<close>

definition image_bytes :: "image \<Rightarrow> bytes" where
  "image_bytes img =
     img_save img (if truthy (img_format img) then or_empty (img_format img) else ustr ''PNG'')"

text \<open>
  The loop of \<open>_format_model_response\<close> over \<open>response.parts\<close>, with the two lists it
  appends to.
\<close>

fun format_loop :: "rpart list \<Rightarrow> pstr list \<Rightarrow> bytes list \<Rightarrow> pstr list \<times> bytes list" where
  "format_loop [] text_parts images = (text_parts, images)"
| "format_loop (p # ps) text_parts images =
     (if thought p = Some True then format_loop ps text_parts images
      else if truthy (rtext p) then format_loop ps (text_parts @ [or_empty (rtext p)]) images
      else
        (case as_image p of
           None \<Rightarrow> format_loop ps text_parts images
         | Some img \<Rightarrow> format_loop ps text_parts (images @ [image_bytes img])))"

definition format_model_response :: "gresponse \<Rightarrow> pstr \<times> bytes list" where
  "format_model_response resp =
     (case format_loop (gparts resp) [] [] of
        (text_parts, images) \<Rightarrow>
          (if text_parts \<noteq> [] then join [10, 10] text_parts else or_empty (gtext resp), images))"

section \<open>The handler \<open>handle_mention\<close>\<close>

text \<open>Lines 176 and 177: the chunks when every chunk is empty.\<close>

definition substitute_empty :: "pstr list \<Rightarrow> bytes list \<Rightarrow> pstr list" where
  "substitute_empty chunks reply_images =
     (if list_all (\<lambda>chunk. chunk = []) chunks
      then (if reply_images \<noteq> [] then [ustr ''Here are your results from Gemini.'']
            else [ustr ''(no response content)''])
      else chunks)"

text \<open>
  Lines 178 to 198: the first chunk, the other chunks, then the images numbered from 1.
  Unpacking an empty list of chunks raises \<open>ValueError\<close>.
\<close>

definition deliver :: "pstr list \<Rightarrow> bytes list \<Rightarrow> exn + action list" where
  "deliver chunks reply_images =
     (case chunks of
        [] \<Rightarrow> Inl ValueError
      | first_chunk # rest_chunks \<Rightarrow>
          Inr (Say first_chunk # map Say rest_chunks
               @ map (\<lambda>(idx, image_bytes). FilesUpload idx image_bytes)
                   (zip [1 ..< Suc (length reply_images)] reply_images)))"

text \<open>
  \<open>handle_mention\<close>, from the messages of the thread: \<open>Inl e\<close> is an exception that leaves
  the handler, \<open>Inr\<close> what it delivers. The assembly (line 138) is outside the \<open>try\<close>; the
  call of the model and the formatting of its response are inside.
\<close>

definition handle_mention ::
  "'w http_get \<Rightarrow> 'w invoker \<Rightarrow> ('t::linorder) message list \<Rightarrow> 'w \<Rightarrow> (exn + action list) \<times> 'w" where
  "handle_mention get call_gemini msgs w =
     (case build_contents_from_thread get msgs w of
        (Inl e, w1) \<Rightarrow> (Inl e, w1)
      | (Inr contents, w1) \<Rightarrow>
          (case call_gemini contents w1 of
             (r, w2) \<Rightarrow>
               (case (case r of
                        Inr gemini_response \<Rightarrow> format_model_response gemini_response
                      | Inl s \<Rightarrow> (ustr ''Error from Gemini: '' @ s, [])) of
                  (reply_text, reply_images) \<Rightarrow>
                    (case split_text reply_text 3000 of
                       Inl e \<Rightarrow> (Inl e, w2)
                     | Inr chunks \<Rightarrow>
                         (deliver (substitute_empty chunks reply_images) reply_images, w2)))))"

section \<open>Collaborators of the examples\<close>

text \<open>
  The examples run the code on a network whose state counts the requests made so far:
  on \<open>get_timeout\<close> every request times out, on \<open>get_status\<close> every request is answered
  with the given status, the text \<open>hello\<close> and three bytes. \<open>gemini_reply\<close> is a model that
  answers every call with the given response, \<open>gemini_error\<close> one that raises.
  \<open>picture\<close> is an image of no declared format, saved as two bytes that depend on the format
  asked for. \<open>example_thread\<close> is a thread of four messages without files, out of order and
  with two equal timestamps, the third written by the bot and the second a bare mention;
  \<open>example_turns\<close> are the turns assembled from it.
\<close>

definition get_timeout :: "nat http_get" where
  "get_timeout url n = (Inl TimeoutException, Suc n)"

definition get_status :: "nat \<Rightarrow> nat http_get" where
  "get_status code url n =
     (Inr \<lparr>status_code = code, resp_text = ustr ''hello'', resp_content = [1, 2, 3]\<rparr>, Suc n)"

definition gemini_reply :: "gresponse \<Rightarrow> nat invoker" where
  "gemini_reply r contents n = (Inr r, n)"


definition example_thread :: "nat message list" where
  "example_thread =
     [\<lparr>ts = 3, bot_id = None, subtype = None, mtext = Some (ustr ''c''), blocks = None, files = []\<rparr>,
      \<lparr>ts = 2, bot_id = None, subtype = None, mtext = Some (ustr ''<@U1>''), blocks = None, files = []\<rparr>,
      \<lparr>ts = 1, bot_id = Some (ustr ''B1''), subtype = None, mtext = Some (ustr ''a''), blocks = None,
        files = []\<rparr>,
      \<lparr>ts = 1, bot_id = None, subtype = None, mtext = Some (ustr ''b''), blocks = None, files = []\<rparr>]"

definition example_turns :: "content list" where
  "example_turns =
     [\<lparr>role = ustr ''model'', parts = [Text (ustr ''a'')]\<rparr>,
      \<lparr>role = ustr ''user'', parts = [Text (ustr ''b'')]\<rparr>,
      \<lparr>role = ustr ''user'', parts = [Text (ustr ''c'')]\<rparr>]"

definition picture :: image where
  "picture = \<lparr>img_format = None,
              img_save = (\<lambda>fmt. if fmt = ustr ''PNG'' then [137, 80] else [255, 216])\<rparr>"

section \<open>Properties of \<open>_split_text\<close>\<close>

lemma ceil_div_Suc:
  assumes "0 < (n::nat)" "i < stop"
  shows "(stop - i + n - 1) div n = Suc ((stop - (i + n) + n - 1) div n)"
proof (cases "stop \<le> i + n")
  case True
  have "(stop - i + n - 1) div n = 1"
    by (rule div_nat_eqI) (use assms True in auto)
  moreover have "(stop - (i + n) + n - 1) div n = 0"
    using True assms by simp
  ultimately show ?thesis by simp
next
  case False
  then have "stop - i + n - 1 = (stop - (i + n) + n - 1) + n"
    using assms by arith
  then have "(stop - i + n - 1) div n = ((stop - (i + n) + n - 1) + n) div n"
    by (rule arg_cong)
  also have "\<dots> = Suc ((stop - (i + n) + n - 1) div n)"
    using assms by (simp only: div_add_self2)
  finally show ?thesis .
qed

lemma range_step_map:
  "0 < step \<Longrightarrow> range_step i stop step = map (\<lambda>k. i + k * step) [0 ..< (stop - i + step - 1) div step]"
proof (induction i stop step rule: range_step.induct)
  case (1 i stop step)
  show ?case
  proof (cases "stop \<le> i")
    case True
    with "1.prems" show ?thesis by (simp add: range_step.simps[of i])
  next
    case False
    let ?c = "(stop - (i + step) + step - 1) div step"
    from False "1.prems" have c: "(stop - i + step - 1) div step = Suc ?c"
      by (intro ceil_div_Suc) auto
    have "range_step i stop step = i # range_step (i + step) stop step"
      using False "1.prems" by (simp add: range_step.simps[of i])
    also have "\<dots> = i # map (\<lambda>k. (i + step) + k * step) [0 ..< ?c]"
      using "1.IH" False "1.prems" by simp
    also have "\<dots> = map (\<lambda>k. i + k * step) [0 ..< Suc ?c]"
    proof -
      have "[0 ..< Suc ?c] = 0 # map Suc [0 ..< ?c]"
        by (simp add: upt_conv_Cons map_Suc_upt del: upt_Suc)
      then show ?thesis by (simp add: o_def add.assoc del: upt_Suc)
    qed
    finally show ?thesis by (simp only: c)
  qed
qed

lemma concat_chunks_take:
  "concat (map (\<lambda>k. take n (drop (k * n) xs)) [0 ..< c]) = take (c * n) xs"
proof (induction c)
  case 0
  show ?case by simp
next
  case (Suc c)
  have "take (c * n) xs @ take n (drop (c * n) xs) = take (c * n + n) xs"
    by (simp add: take_add)
  with Suc show ?case by (simp add: add.commute)
qed

lemma ceil_div_upper:
  assumes "0 < (n::nat)"
  shows "l \<le> ((l + n - 1) div n) * n"
proof -
  let ?c = "(l + n - 1) div n"
  have "l + n - 1 = ?c * n + (l + n - 1) mod n" by simp
  moreover have "(l + n - 1) mod n < n" using assms by simp
  ultimately show "l \<le> ?c * n" by linarith
qed

lemma ceil_div_lower:
  assumes "0 < (n::nat)" "Suc k < (l + n - 1) div n"
  shows "k * n + n \<le> l"
proof -
  let ?c = "(l + n - 1) div n"
  have "Suc (Suc k) \<le> ?c" using assms by simp
  then have "Suc (Suc k) * n \<le> ?c * n" by (rule mult_le_mono1)
  also have "?c * n \<le> l + n - 1" by simp
  finally have "k * n + n + n \<le> l + n - 1" by (simp add: algebra_simps)
  then show ?thesis using assms by linarith
qed

lemma ceil_div_ceiling:
  assumes "0 < (n::nat)"
  shows "int ((l + n - 1) div n) = \<lceil>real l / real n\<rceil>"
proof -
  let ?c = "(l + n - 1) div n"
  have up: "l \<le> ?c * n" using assms by (rule ceil_div_upper)
  have lo: "?c * n < l + n"
  proof -
    have "?c * n \<le> l + n - 1" by simp
    then show ?thesis using assms by linarith
  qed
  have "\<lceil>real l / real n\<rceil> = int ?c"
  proof (rule ceiling_unique)
    have "real ?c * real n < real l + real n"
      using lo of_nat_less_iff[of "?c * n" "l + n", where ?'a = real] by (simp del: of_nat_less_iff)
    then have "(real ?c - 1) * real n < real l" by (simp add: algebra_simps)
    then show "of_int (int ?c) - 1 < real l / real n"
      using assms by (simp add: pos_less_divide_eq)
    have "real l \<le> real ?c * real n"
      using up of_nat_le_iff[of l "?c * n", where ?'a = real] by (simp del: of_nat_le_iff)
    then show "real l / real n \<le> of_int (int ?c)"
      using assms by (simp add: pos_divide_le_eq)
  qed
  then show ?thesis by simp
qed

lemma split_text_nonempty:
  assumes "0 < limit" "text \<noteq> []"
  shows "split_text text limit =
     Inr (map (\<lambda>k. take (nat limit) (drop (k * nat limit) text))
            [0 ..< (length text + nat limit - 1) div nat limit])"
  using assms range_step_map [of "nat limit" 0 "length text"]
  by (simp add: split_text_def)

lemma split_text_default:
  "\<exists>chunks. split_text text 3000 = Inr chunks \<and> chunks \<noteq> [] \<and> concat chunks = text"
proof (cases "text = []")
  case True
  then show ?thesis by (simp add: split_text_def)
next
  case False
  let ?c = "(length text + nat 3000 - 1) div nat 3000"
  let ?chunks = "map (\<lambda>k. take (nat 3000) (drop (k * nat 3000) text)) [0 ..< ?c]"
  have run: "split_text text 3000 = Inr ?chunks"
    using False by (intro split_text_nonempty) auto
  have "length text \<le> ?c * nat 3000"
    by (rule ceil_div_upper) simp
  then have cat: "concat ?chunks = text"
    by (simp only: concat_chunks_take take_all)
  have "?chunks \<noteq> []"
  proof
    assume "?chunks = []"
    then have "concat ?chunks = []" by (simp only: concat.simps)
    with cat False show False by simp
  qed
  with run cat show ?thesis by blast
qed


lemma all_empty_chunks:
  assumes "split_text text 3000 = Inr chunks"
  shows "list_all (\<lambda>chunk. chunk = []) chunks \<longleftrightarrow> text = []"
proof -
  from split_text_default [of "text"] assms
  have cat: "concat chunks = text" and ne: "chunks \<noteq> []" by auto
  show ?thesis
  proof
    assume "list_all (\<lambda>chunk. chunk = []) chunks"
    then have "concat chunks = []" by (simp add: list_all_iff)
    with cat show "text = []" by simp
  next
    assume "text = []"
    with cat show "list_all (\<lambda>chunk. chunk = []) chunks" by (simp add: list_all_iff)
  qed
qed

text \<open>
  C3. For a positive limit \<open>N\<close> and a string of length \<open>L\<close>, \<open>_split_text\<close> returns
  chunks (it does not raise): \<open>ceil(L/N)\<close> of them for a non-empty string and the single
  empty chunk for the empty string; chunk number \<open>i\<close> is the slice of length at most \<open>N\<close>
  at position \<open>i * N\<close>, so the chunks are in order, every chunk has at most \<open>N\<close> characters,
  every chunk but the last has exactly \<open>N\<close>, and their concatenation is the string.
\<close>

theorem split_text_chunks:
  assumes "0 < limit"
  shows "\<exists>chunks. split_text text limit = Inr chunks
     \<and> int (length chunks) = (if text = [] then 1 else \<lceil>real (length text) / real_of_int limit\<rceil>)
     \<and> (\<forall>i<length chunks. chunks ! i = take (nat limit) (drop (i * nat limit) text))
     \<and> (\<forall>i<length chunks. length (chunks ! i) \<le> nat limit)
     \<and> (\<forall>i. Suc i < length chunks \<longrightarrow> length (chunks ! i) = nat limit)
     \<and> concat chunks = text
     \<and> (text = [] \<longrightarrow> chunks = [[]])"
proof (cases "text = []")
  case True
  then show ?thesis by (simp add: split_text_def)
next
  case False
  define n where "n = nat limit"
  define c where "c = (length text + n - 1) div n"
  define chunks where "chunks = map (\<lambda>k. take n (drop (k * n) text)) [0 ..< c]"
  have n: "0 < n" and lim: "real_of_int limit = real n"
    using assms by (simp_all add: n_def)
  have run: "split_text text limit = Inr chunks"
    using False assms n range_step_map[of n 0 "length text"]
    by (simp add: split_text_def chunks_def c_def n_def[symmetric])
  have len: "length chunks = c" by (simp add: chunks_def)
  have count: "int (length chunks) = \<lceil>real (length text) / real_of_int limit\<rceil>"
    unfolding len c_def lim using n by (rule ceil_div_ceiling)
  have nth: "\<forall>i<length chunks. chunks ! i = take n (drop (i * n) text)"
    by (simp add: chunks_def)
  have bound: "\<forall>i<length chunks. length (chunks ! i) \<le> n"
    using nth by simp
  have full: "\<forall>i. Suc i < length chunks \<longrightarrow> length (chunks ! i) = n"
  proof (intro allI impI)
    fix i assume i: "Suc i < length chunks"
    then have "i * n + n \<le> length text"
      unfolding len c_def using n by (intro ceil_div_lower) auto
    moreover have "chunks ! i = take n (drop (i * n) text)"
      using i nth by simp
    ultimately show "length (chunks ! i) = n" by simp
  qed
  have cat: "concat chunks = text"
    unfolding chunks_def concat_chunks_take c_def using ceil_div_upper[OF n, of "length text"] by simp
  from False run count nth bound full cat
  have "split_text text limit = Inr chunks
     \<and> int (length chunks) = (if text = [] then 1 else \<lceil>real (length text) / real_of_int limit\<rceil>)
     \<and> (\<forall>i<length chunks. chunks ! i = take (nat limit) (drop (i * nat limit) text))
     \<and> (\<forall>i<length chunks. length (chunks ! i) \<le> nat limit)
     \<and> (\<forall>i. Suc i < length chunks \<longrightarrow> length (chunks ! i) = nat limit)
     \<and> concat chunks = text
     \<and> (text = [] \<longrightarrow> chunks = [[]])"
    unfolding n_def by (intro conjI) simp_all
  then show ?thesis ..
qed

text \<open>
  The string \<open>abcdefg\<close> with limit 3.
\<close>

theorem split_text_chunks_witness:
  "(0::int) < 3 \<and> (\<exists>chunks. split_text (ustr ''abcdefg'') 3 = Inr chunks \<and> length chunks = 3
      \<and> chunks ! 0 = ustr ''abc'' \<and> chunks ! 1 = ustr ''def'' \<and> chunks ! 2 = ustr ''g''
      \<and> concat chunks = ustr ''abcdefg'')"
  using split_text_chunks [of 3 "ustr ''abcdefg''"] by (simp add: split_text_def range_step.simps)

section \<open>Properties of \<open>_format_model_response\<close>\<close>

lemma format_loop_closed:
  "format_loop ps text_parts images =
     (text_parts @ map (\<lambda>p. or_empty (rtext p))
        (filter (\<lambda>p. truthy (rtext p)) (filter (\<lambda>p. thought p \<noteq> Some True) ps)),
      images @ map image_bytes
        (List.map_filter as_image
           (filter (\<lambda>p. \<not> truthy (rtext p)) (filter (\<lambda>p. thought p \<noteq> Some True) ps))))"
proof (induction ps arbitrary: text_parts images)
  case Nil
  show ?case by simp
next
  case (Cons p ps)
  show ?case
    by (cases "as_image p") (simp_all add: Cons.IH)
qed

text \<open>
  C4. The rendering of a response is computed from the parts that are not tagged as a
  thought, in the order of the response: the texts of the parts with a non-empty text joined
  with a blank line (or \<open>response.text or ""\<close> when there is none), and the bytes of the
  images of the other parts. Removing the thoughts from a response does not change its
  rendering. A thought, the text \<open>a\<close>, an image and the text \<open>b\<close> render to \<open>a\<close>, a blank
  line and \<open>b\<close>, with the bytes of the image.
\<close>

theorem format_model_response_render:
  "format_model_response resp =
     (let shown = filter (\<lambda>p. thought p \<noteq> Some True) (gparts resp);
          text_parts = map (\<lambda>p. or_empty (rtext p)) (filter (\<lambda>p. truthy (rtext p)) shown);
          images = map image_bytes (List.map_filter as_image (filter (\<lambda>p. \<not> truthy (rtext p)) shown))
      in (if text_parts \<noteq> [] then join [10, 10] text_parts else or_empty (gtext resp), images))
   \<and> format_model_response (resp\<lparr>gparts := filter (\<lambda>p. thought p \<noteq> Some True) (gparts resp)\<rparr>)
       = format_model_response resp
   \<and> format_model_response
        \<lparr>gparts = [th\<lparr>thought := Some True\<rparr>,
                   \<lparr>thought = None, rtext = Some (ustr ''a''), as_image = None\<rparr>,
                   \<lparr>thought = None, rtext = None, as_image = Some img\<rparr>,
                   \<lparr>thought = None, rtext = Some (ustr ''b''), as_image = None\<rparr>],
         gtext = t\<rparr>
       = (ustr ''a'' @ [10, 10] @ ustr ''b'', [image_bytes img])"
proof (intro conjI)
  show "format_model_response resp =
     (let shown = filter (\<lambda>p. thought p \<noteq> Some True) (gparts resp);
          text_parts = map (\<lambda>p. or_empty (rtext p)) (filter (\<lambda>p. truthy (rtext p)) shown);
          images = map image_bytes (List.map_filter as_image (filter (\<lambda>p. \<not> truthy (rtext p)) shown))
      in (if text_parts \<noteq> [] then join [10, 10] text_parts else or_empty (gtext resp), images))"
    by (simp add: format_model_response_def format_loop_closed Let_def)
  show "format_model_response (resp\<lparr>gparts := filter (\<lambda>p. thought p \<noteq> Some True) (gparts resp)\<rparr>)
       = format_model_response resp"
    by (simp add: format_model_response_def format_loop_closed)
  show "format_model_response
        \<lparr>gparts = [th\<lparr>thought := Some True\<rparr>,
                   \<lparr>thought = None, rtext = Some (ustr ''a''), as_image = None\<rparr>,
                   \<lparr>thought = None, rtext = None, as_image = Some img\<rparr>,
                   \<lparr>thought = None, rtext = Some (ustr ''b''), as_image = None\<rparr>],
         gtext = t\<rparr>
       = (ustr ''a'' @ [10, 10] @ ustr ''b'', [image_bytes img])"
    by (simp add: format_model_response_def truthy_def or_empty_def)
qed

text \<open>
  A thought with a text, the text \<open>a\<close>, the image \<open>picture\<close> and the text \<open>b\<close>.
\<close>

theorem format_model_response_render_witness:
  "format_model_response
     \<lparr>gparts = [\<lparr>thought = Some True, rtext = Some (ustr ''plan''), as_image = None\<rparr>,
                \<lparr>thought = None, rtext = Some (ustr ''a''), as_image = None\<rparr>,
                \<lparr>thought = Some False, rtext = None, as_image = Some picture\<rparr>,
                \<lparr>thought = None, rtext = Some (ustr ''b''), as_image = None\<rparr>],
      gtext = None\<rparr>
   = (ustr ''a'' @ [10, 10] @ ustr ''b'', [[137, 80]])"
  using format_model_response_render [of
     "\<lparr>gparts = [\<lparr>thought = Some True, rtext = Some (ustr ''plan''), as_image = None\<rparr>,
                \<lparr>thought = None, rtext = Some (ustr ''a''), as_image = None\<rparr>,
                \<lparr>thought = Some False, rtext = None, as_image = Some picture\<rparr>,
                \<lparr>thought = None, rtext = Some (ustr ''b''), as_image = None\<rparr>],
      gtext = None\<rparr>"]
  by (simp add: truthy_def or_empty_def image_bytes_def picture_def)

section \<open>Properties of the text of a message\<close>

lemma sub_mentions_keep:
  "\<forall>k<length pre. match_mention (drop k (pre @ s)) = None \<Longrightarrow>
     sub_mentions (pre @ s) = pre @ sub_mentions s"
proof (induction pre)
  case Nil
  show ?case by simp
next
  case (Cons c pre)
  from Cons.prems have "match_mention (drop 0 ((c # pre) @ s)) = None" by blast
  then have here: "match_mention (c # pre @ s) = None" by simp
  have "\<forall>k<length pre. match_mention (drop k (pre @ s)) = None"
  proof (intro allI impI)
    fix k assume "k < length pre"
    with Cons.prems have "match_mention (drop (Suc k) ((c # pre) @ s)) = None" by auto
    then show "match_mention (drop k (pre @ s)) = None" by simp
  qed
  then have "sub_mentions (pre @ s) = pre @ sub_mentions s" by (rule Cons.IH)
  with here show ?case by (simp del: match_mention.simps)
qed

lemma match_mention_token:
  assumes "name \<noteq> []" "62 \<notin> set name"
  shows "match_mention ([60, 64] @ name @ [62] @ rest) = Some (dropWhile isspace rest)"
proof -
  have "takeWhile (\<lambda>c. c \<noteq> 62) (name @ 62 # rest) = name"
    using assms(2) by (induction name) auto
  moreover have "dropWhile (\<lambda>c. c \<noteq> 62) (name @ 62 # rest) = 62 # rest"
    using assms(2) by (induction name) auto
  ultimately show ?thesis using assms(1) by simp
qed

lemma sub_mentions_token:
  assumes "name \<noteq> []" "62 \<notin> set name"
  shows "sub_mentions ([60, 64] @ name @ [62] @ rest) = sub_mentions (dropWhile isspace rest)"
proof -
  have "match_mention (60 # 64 # name @ 62 # rest) = Some (dropWhile isspace rest)"
    using match_mention_token [OF assms, of rest] by simp
  then show ?thesis by (simp del: match_mention.simps)
qed

lemma sub_mentions_none:
  "(\<forall>k. match_mention (drop k t) = None) \<Longrightarrow> sub_mentions t = t"
proof (induction t)
  case Nil
  show ?case by simp
next
  case (Cons c cs)
  from Cons.prems have "match_mention (drop 0 (c # cs)) = None" by blast
  then have here: "match_mention (c # cs) = None" by simp
  have "\<forall>k. match_mention (drop k cs) = None"
  proof
    fix k
    from Cons.prems have "match_mention (drop (Suc k) (c # cs)) = None" by blast
    then show "match_mention (drop k cs) = None" by simp
  qed
  then have "sub_mentions cs = cs" by (rule Cons.IH)
  with here show ?case by (simp del: match_mention.simps)
qed

lemma sub_mentions_unmatched:
  assumes "list_all (\<lambda>k. match_mention (drop k t) = None) [0 ..< length t]"
  shows "sub_mentions t = t"
proof (rule sub_mentions_none, rule allI)
  fix k
  show "match_mention (drop k t) = None"
  proof (cases "k < length t")
    case True
    with assms show ?thesis by (simp add: list_all_iff)
  next
    case False
    then show ?thesis by simp
  qed
qed

lemma strip_id:
  assumes "t \<noteq> []" "\<not> isspace (hd t)" "\<not> isspace (last t)"
  shows "strip t = t"
proof -
  have "dropWhile isspace t = t"
    using assms(1,2) by (cases t) simp_all
  moreover have "dropWhile isspace (rev t) = rev t"
    using assms(1,3) by (cases "rev t") (simp_all add: hd_rev[symmetric])
  ultimately show ?thesis by (simp add: strip_def)
qed

lemma extract_text_sub:
  "(k, v) \<in> set kvs \<Longrightarrow> set (extract_text v) \<subseteq> set (extract_text (JDict kvs))"
  by force

lemma map_filter_append:
  "List.map_filter f (xs @ ys) = List.map_filter f xs @ List.map_filter f ys"
  by (simp add: List.map_filter_def)

lemma map_filter_concat:
  "List.map_filter f (concat xss) = concat (map (List.map_filter f) xss)"
  by (induction xss) (simp_all add: map_filter_append)

lemma extract_text_depth_first:
  "extract_text v = spec_extract_text v"
proof (induction v rule: extract_text.induct)
  case (1 kvs)
  have m: "map (\<lambda>kv. extract_text (snd kv)) kvs
      = map (\<lambda>kv. List.map_filter text_field (depth_first (snd kv))) kvs"
    using 1 by (simp add: spec_extract_text_def)
  have "extract_text (JDict kvs)
      = (case text_field (JDict kvs) of None \<Rightarrow> [] | Some t \<Rightarrow> [t])
        @ concat (map (\<lambda>kv. extract_text (snd kv)) kvs)"
    by (simp add: text_field_def split: option.splits json.splits)
  also have "\<dots> = (case text_field (JDict kvs) of None \<Rightarrow> [] | Some t \<Rightarrow> [t])
        @ concat (map (\<lambda>kv. List.map_filter text_field (depth_first (snd kv))) kvs)"
    by (simp only: m)
  also have "\<dots> = spec_extract_text (JDict kvs)"
    by (simp add: spec_extract_text_def map_filter_concat o_def split: option.splits)
  finally show ?case .
next
  case (2 items)
  have m: "map extract_text items = map (\<lambda>v. List.map_filter text_field (depth_first v)) items"
    using 2 by (simp add: spec_extract_text_def)
  have "extract_text (JList items) = concat (map extract_text items)" by simp
  also have "\<dots> = concat (map (\<lambda>v. List.map_filter text_field (depth_first v)) items)"
    by (simp only: m)
  also have "\<dots> = spec_extract_text (JList items)"
    by (simp add: spec_extract_text_def map_filter_concat o_def text_field_def)
  finally show ?case .
qed (simp_all add: spec_extract_text_def text_field_def)

lemma join_concat:
  "join sep (x # xs) = x @ concat (map (\<lambda>y. sep @ y) xs)"
  by (induction xs arbitrary: x) simp_all

lemma strip_tail:
  "dropWhile isspace s = strip s @ rev (takeWhile isspace (rev (dropWhile isspace s)))"
proof -
  let ?u = "dropWhile isspace s"
  have "rev (dropWhile isspace (rev ?u)) @ rev (takeWhile isspace (rev ?u))
      = rev (takeWhile isspace (rev ?u) @ dropWhile isspace (rev ?u))"
    by (simp only: rev_append)
  also have "\<dots> = rev (rev ?u)" by (simp only: takeWhile_dropWhile_id)
  also have "\<dots> = ?u" by (simp only: rev_rev_ident)
  finally show ?thesis by (simp only: strip_def)
qed

lemma strip_decompose:
  "\<exists>a b. list_all isspace a \<and> list_all isspace b \<and> s = a @ strip s @ b"
proof -
  let ?u = "dropWhile isspace s"
  let ?a = "takeWhile isspace s"
  let ?b = "rev (takeWhile isspace (rev ?u))"
  have a: "list_all isspace ?a"
    by (simp add: list_all_iff) (meson set_takeWhileD)
  have b: "list_all isspace ?b"
    by (simp add: list_all_iff) (meson set_takeWhileD)
  have "s = ?a @ ?u" by simp
  also have "?u = strip s @ ?b" by (rule strip_tail)
  finally have "s = ?a @ strip s @ ?b" .
  with a b show ?thesis by blast
qed

lemma strip_ends:
  assumes "strip s \<noteq> []"
  shows "\<not> isspace (hd (strip s)) \<and> \<not> isspace (last (strip s))"
proof -
  let ?u = "dropWhile isspace s"
  let ?d = "dropWhile isspace (rev ?u)"
  have st: "strip s = rev ?d" by (simp add: strip_def)
  with assms have d: "?d \<noteq> []" by simp
  then have "\<not> isspace (hd ?d)" by (rule hd_dropWhile)
  moreover have "last (strip s) = hd ?d" using d st by (simp add: last_rev)
  ultimately have l: "\<not> isspace (last (strip s))" by simp
  have u: "?u = strip s @ rev (takeWhile isspace (rev ?u))" by (rule strip_tail)
  then have "?u \<noteq> []" using assms by (metis append_is_Nil_conv)
  then have "\<not> isspace (hd ?u)" by (rule hd_dropWhile)
  moreover have "hd ?u = hd (strip s)" using u assms by (metis hd_append2)
  ultimately show ?thesis using l by simp
qed

text \<open>
  C2, as the code has it. A mention \<open><@name>\<close> is removed wherever it stands in the raw
  text, with the whitespace that follows it: when the pattern matches at no position before
  it, the text before it is kept and the scan goes on after that whitespace; the result is
  stripped of leading and trailing whitespace (and is the text of the message when it is
  not empty). A non-empty raw text in which the pattern matches at no position, and which
  neither starts nor ends with whitespace, is the derived text. The raw text
  \<open><@U123> hello\<close> gives \<open>hello\<close>.
\<close>

theorem derive_text_mentions:
  "(list_all (\<lambda>k. match_mention (drop k (pre @ [60, 64] @ name @ [62] @ rest)) = None) [0 ..< length pre]
      \<and> name \<noteq> [] \<and> 62 \<notin> set name
      \<and> mtext msg = Some (pre @ [60, 64] @ name @ [62] @ rest)
      \<and> strip (pre @ sub_mentions (dropWhile isspace rest)) \<noteq> []
     \<longrightarrow> derive_text msg = strip (pre @ sub_mentions (dropWhile isspace rest)))
   \<and> (mtext msg = Some t \<and> t \<noteq> []
      \<and> list_all (\<lambda>k. match_mention (drop k t) = None) [0 ..< length t]
      \<and> \<not> isspace (hd t) \<and> \<not> isspace (last t)
     \<longrightarrow> derive_text msg = t)
   \<and> derive_text (msg\<lparr>mtext := Some (ustr ''<@U123> hello'')\<rparr>) = ustr ''hello''"
proof (intro conjI impI)
  assume a: "list_all (\<lambda>k. match_mention (drop k (pre @ [60, 64] @ name @ [62] @ rest)) = None) [0 ..< length pre]
      \<and> name \<noteq> [] \<and> 62 \<notin> set name
      \<and> mtext msg = Some (pre @ [60, 64] @ name @ [62] @ rest)
      \<and> strip (pre @ sub_mentions (dropWhile isspace rest)) \<noteq> []"
  then have "sub_mentions (pre @ [60, 64] @ name @ [62] @ rest)
      = pre @ sub_mentions ([60, 64] @ name @ [62] @ rest)"
    by (intro sub_mentions_keep) (simp add: list_all_iff)
  also from a have "sub_mentions ([60, 64] @ name @ [62] @ rest) = sub_mentions (dropWhile isspace rest)"
    by (intro sub_mentions_token) simp_all
  finally have "sub_mentions (pre @ [60, 64] @ name @ [62] @ rest)
      = pre @ sub_mentions (dropWhile isspace rest)" .
  with a show "derive_text msg = strip (pre @ sub_mentions (dropWhile isspace rest))"
    by (simp add: derive_text_def or_empty_def del: sub_mentions.simps)
next
  assume a: "mtext msg = Some t \<and> t \<noteq> []
      \<and> list_all (\<lambda>k. match_mention (drop k t) = None) [0 ..< length t]
      \<and> \<not> isspace (hd t) \<and> \<not> isspace (last t)"
  then have "sub_mentions t = t" by (intro sub_mentions_unmatched) simp
  moreover from a have "strip t = t" by (intro strip_id) simp_all
  ultimately show "derive_text msg = t"
    using a by (simp add: derive_text_def or_empty_def)
next
  show "derive_text (msg\<lparr>mtext := Some (ustr ''<@U123> hello'')\<rparr>) = ustr ''hello''"
    by (simp add: derive_text_def or_empty_def strip_def isspace_def)
qed

text \<open>
  A raw text with two mentions after a \<open><\<close> that starts none, and the raw text \<open>a < b\<close>.
\<close>

theorem derive_text_mentions_witness:
  "derive_text \<lparr>ts = 1 :: nat, bot_id = None, subtype = None,
       mtext = Some (ustr ''a <b <@U1>  you <@U2>''), blocks = None, files = []\<rparr> = ustr ''a <b you''
   \<and> derive_text \<lparr>ts = 1 :: nat, bot_id = None, subtype = None,
       mtext = Some (ustr ''a < b''), blocks = None, files = []\<rparr> = ustr ''a < b''"
  using
    derive_text_mentions [of "ustr ''a <b ''" "ustr ''U1''" "ustr ''  you <@U2>''"
      "\<lparr>ts = 1 :: nat, bot_id = None, subtype = None,
        mtext = Some (ustr ''a <b <@U1>  you <@U2>''), blocks = None, files = []\<rparr>" "[]"]
    derive_text_mentions [of "[]" "[]" "[]"
      "\<lparr>ts = 1 :: nat, bot_id = None, subtype = None,
        mtext = Some (ustr ''a < b''), blocks = None, files = []\<rparr>" "ustr ''a < b''"]
  by (simp add: strip_def isspace_def)

text \<open>
  C2 as the specification states it fails: \<open>hi <@U1> you\<close> has no mention at its start, and
  its derived text is not the raw text.
\<close>

theorem mention_inside_text_counterexample:
  "match_mention (ustr ''hi <@U1> you'') = None
   \<and> derive_text \<lparr>ts = 1 :: nat, bot_id = None, subtype = None,
       mtext = Some (ustr ''hi <@U1> you''), blocks = None, files = []\<rparr> \<noteq> ustr ''hi <@U1> you''"
  by (simp add: derive_text_def or_empty_def strip_def isspace_def)

text \<open>
  C7, as the code has it. \<open>_extract_text\<close> returns the fragments that the specification
  names: the string-valued \<open>text\<close> fields of the values visited depth-first, in the order of
  the visit and as often as they occur. When the raw text without its mentions, stripped,
  is empty, the text of the message is these fragments of \<open>msg.get("blocks", [])\<close> joined
  with newlines (the first fragment, then a newline before each other one) and stripped:
  whitespace is removed at both ends and nowhere else, and what is left neither starts nor
  ends with whitespace. A string under the key \<open>text\<close> of a dict is extracted, and what is
  extracted from a value of a dict or from an item of a list is extracted from the dict or
  the list. The blocks \<open>[{"text": "a"}, {"items": [{"text": "b"}]}]\<close> give \<open>a\<close>, a newline
  and \<open>b\<close>; a dict with its own \<open>text\<close>, a list of two dicts with the same \<open>text\<close> around
  a string, and a dict whose \<open>text\<close> is a dict with a \<open>text\<close>, gives the four fragments in
  that order.
\<close>

theorem derive_text_fallback:
  "extract_text blk = spec_extract_text blk
   \<and> (strip (sub_mentions (or_empty (mtext msg))) = [] \<longrightarrow>
      derive_text msg =
        strip (join [10] (spec_extract_text (case blocks msg of None \<Rightarrow> JList [] | Some b \<Rightarrow> b))))
   \<and> join sep (x # xs) = x @ concat (map (\<lambda>y. sep @ y) xs)
   \<and> (\<exists>a b. list_all isspace a \<and> list_all isspace b \<and> s = a @ strip s @ b)
   \<and> (strip s \<noteq> [] \<longrightarrow> \<not> isspace (hd (strip s)) \<and> \<not> isspace (last (strip s)))
   \<and> (map_of kvs (ustr ''text'') = Some (JStr t) \<longrightarrow> t \<in> set (extract_text (JDict kvs)))
   \<and> ((k, v) \<in> set kvs \<longrightarrow> set (extract_text v) \<subseteq> set (extract_text (JDict kvs)))
   \<and> (v \<in> set items \<longrightarrow> set (extract_text v) \<subseteq> set (extract_text (JList items)))
   \<and> derive_text (msg\<lparr>mtext := Some [],
          blocks := Some (JList [JDict [(ustr ''text'', JStr (ustr ''a''))],
                                 JDict [(ustr ''items'', JList [JDict [(ustr ''text'', JStr (ustr ''b''))]])]])\<rparr>)
       = ustr ''a'' @ [10] @ ustr ''b''
   \<and> extract_text
        (JDict [(ustr ''text'', JStr p),
                (ustr ''elements'', JList [JDict [(ustr ''text'', JStr q)], JStr p,
                                           JDict [(ustr ''text'', JStr q)]]),
                (ustr ''accessory'', JDict [(ustr ''text'', JDict [(ustr ''text'', JStr r)])])])
       = [p, q, q, r]"
proof (intro conjI impI)
  show "extract_text blk = spec_extract_text blk" by (rule extract_text_depth_first)
next
  assume "strip (sub_mentions (or_empty (mtext msg))) = []"
  then show "derive_text msg =
        strip (join [10] (spec_extract_text (case blocks msg of None \<Rightarrow> JList [] | Some b \<Rightarrow> b)))"
    by (simp add: derive_text_def extract_text_depth_first del: extract_text.simps)
next
  show "join sep (x # xs) = x @ concat (map (\<lambda>y. sep @ y) xs)" by (rule join_concat)
next
  show "\<exists>a b. list_all isspace a \<and> list_all isspace b \<and> s = a @ strip s @ b"
    by (rule strip_decompose)
next
  assume "strip s \<noteq> []"
  then have e: "\<not> isspace (hd (strip s)) \<and> \<not> isspace (last (strip s))" by (rule strip_ends)
  from e show "\<not> isspace (hd (strip s))" ..
  from e show "\<not> isspace (last (strip s))" ..
next
  assume "map_of kvs (ustr ''text'') = Some (JStr t)"
  then show "t \<in> set (extract_text (JDict kvs))" by simp
next
  assume "(k, v) \<in> set kvs"
  then show "set (extract_text v) \<subseteq> set (extract_text (JDict kvs))" by (rule extract_text_sub)
next
  assume "v \<in> set items"
  then show "set (extract_text v) \<subseteq> set (extract_text (JList items))" by auto
next
  show "derive_text (msg\<lparr>mtext := Some [],
          blocks := Some (JList [JDict [(ustr ''text'', JStr (ustr ''a''))],
                                 JDict [(ustr ''items'', JList [JDict [(ustr ''text'', JStr (ustr ''b''))]])]])\<rparr>)
       = ustr ''a'' @ [10] @ ustr ''b''"
    by (simp add: derive_text_def or_empty_def strip_def isspace_def)
next
  show "extract_text
        (JDict [(ustr ''text'', JStr p),
                (ustr ''elements'', JList [JDict [(ustr ''text'', JStr q)], JStr p,
                                           JDict [(ustr ''text'', JStr q)]]),
                (ustr ''accessory'', JDict [(ustr ''text'', JDict [(ustr ''text'', JStr r)])])])
       = [p, q, q, r]"
    by simp
qed

text \<open>
  A message whose raw text is a bare mention, with a section block whose \<open>text\<close> is an
  object holding the text \<open>hi\<close> followed by a space, and two fields with the same text.
\<close>

theorem derive_text_fallback_witness:
  "derive_text \<lparr>ts = 1 :: nat, bot_id = None, subtype = None, mtext = Some (ustr ''<@U1> ''),
      blocks = Some (JDict [(ustr ''type'', JStr (ustr ''section'')),
                            (ustr ''text'', JDict [(ustr ''type'', JStr (ustr ''mrkdwn'')),
                                                   (ustr ''text'', JStr (ustr ''hi ''))]),
                            (ustr ''fields'', JList [JDict [(ustr ''text'', JStr (ustr ''x''))],
                                                     JDict [(ustr ''text'', JStr (ustr ''x''))]])]),
      files = []\<rparr> = ustr ''hi '' @ [10] @ ustr ''x'' @ [10] @ ustr ''x''
   \<and> spec_extract_text
       (JDict [(ustr ''type'', JStr (ustr ''section'')),
               (ustr ''text'', JDict [(ustr ''type'', JStr (ustr ''mrkdwn'')),
                                      (ustr ''text'', JStr (ustr ''hi ''))]),
               (ustr ''fields'', JList [JDict [(ustr ''text'', JStr (ustr ''x''))],
                                        JDict [(ustr ''text'', JStr (ustr ''x''))]])])
     = [ustr ''hi '', ustr ''x'', ustr ''x'']"
  using derive_text_fallback [where msg =
    "\<lparr>ts = 1 :: nat, bot_id = None, subtype = None, mtext = Some (ustr ''<@U1> ''),
      blocks = Some (JDict [(ustr ''type'', JStr (ustr ''section'')),
                            (ustr ''text'', JDict [(ustr ''type'', JStr (ustr ''mrkdwn'')),
                                                   (ustr ''text'', JStr (ustr ''hi ''))]),
                            (ustr ''fields'', JList [JDict [(ustr ''text'', JStr (ustr ''x''))],
                                                     JDict [(ustr ''text'', JStr (ustr ''x''))]])]),
      files = []\<rparr>"]
  by (simp add: or_empty_def strip_def isspace_def spec_extract_text_def text_field_def
      List.map_filter_def)

text \<open>
  C7 as the specification states it fails: the one text of the blocks is a space and \<open>a\<close>,
  so is the join, and the derived text is \<open>a\<close>.
\<close>

theorem fallback_stripped_counterexample:
  "join [10] (extract_text (JList [JDict [(ustr ''text'', JStr (ustr '' a''))]])) = ustr '' a''
   \<and> derive_text \<lparr>ts = 1 :: nat, bot_id = None, subtype = None, mtext = Some [],
        blocks = Some (JList [JDict [(ustr ''text'', JStr (ustr '' a''))]]), files = []\<rparr> = ustr ''a''"
  by (simp add: derive_text_def or_empty_def strip_def isspace_def)

section \<open>Properties of the loop over the files\<close>

lemma file_step_skip:
  "\<not> truthy (url_private_download f) \<or> \<not> supported (or_empty (mimetype f)) \<Longrightarrow>
     file_step get f ps w = (Inr ps, w)"
  by (auto simp: file_step_def truthy_def Let_def split: option.splits)


lemma files_loop_skip:
  "\<forall>f\<in>set fs. \<not> truthy (url_private_download f) \<or> \<not> supported (or_empty (mimetype f)) \<Longrightarrow>
     files_loop get fs ps w = (Inr ps, w)"
  by (induction fs) (simp_all add: file_step_skip)




text \<open>
  C10. A file without a download URL (absent or empty) is skipped whatever its media type:
  the body of the loop leaves the parts and the network as they are, for every network, and
  the loop goes on with the other files.
\<close>

theorem missing_url_skipped:
  assumes "\<not> truthy (url_private_download f)"
  shows "file_step get f ps w = (Inr ps, w)
     \<and> files_loop get (f # fs) ps w = files_loop get fs ps w"
  using assms by (simp add: file_step_skip)

text \<open>
  A PNG image without URL, alone on a network where every request times out, and followed
  by one with an empty URL and one with a URL on a network that answers 200: one request is
  made.
\<close>

theorem missing_url_skipped_witness:
  "\<not> truthy None
   \<and> supported (or_empty (Some (ustr ''image/png'')))
   \<and> file_step get_timeout \<lparr>mimetype = Some (ustr ''image/png''), url_private_download = None\<rparr> [] 0
       = (Inr [], 0)
   \<and> files_loop (get_status 200)
        [\<lparr>mimetype = Some (ustr ''image/png''), url_private_download = None\<rparr>,
         \<lparr>mimetype = Some (ustr ''image/png''), url_private_download = Some []\<rparr>,
         \<lparr>mimetype = Some (ustr ''image/png''), url_private_download = Some (ustr ''u'')\<rparr>] [] 0
       = (Inr [Bytes [1, 2, 3] (ustr ''image/png'')], 1)"
  using
    missing_url_skipped [of "\<lparr>mimetype = Some (ustr ''image/png''), url_private_download = None\<rparr>"
      get_timeout "[]" 0 "[]"]
    missing_url_skipped [of "\<lparr>mimetype = Some (ustr ''image/png''), url_private_download = None\<rparr>"
      "get_status 200" "[]" 0
      "[\<lparr>mimetype = Some (ustr ''image/png''), url_private_download = Some []\<rparr>,
        \<lparr>mimetype = Some (ustr ''image/png''), url_private_download = Some (ustr ''u'')\<rparr>]"]
  by (simp add: truthy_def or_empty_def supported_def file_step_def fetch_def get_status_def Let_def)

section \<open>Properties of \<open>_build_contents_from_thread\<close>\<close>


lemma message_step_shift:
  "message_step get m cs w =
     (case message_step get m [] w of
        (Inl e, w') \<Rightarrow> (Inl e, w')
      | (Inr t, w') \<Rightarrow> (Inr (cs @ t), w'))"
  by (simp add: message_step_def split: prod.splits sum.splits)

lemma message_step_turn:
  assumes "message_step get m [] w = (Inr t, w')"
  shows "t = [] \<or> (\<exists>ps. ps \<noteq> [] \<and> t = [\<lparr>role = role_of m, parts = ps\<rparr>])"
  using assms by (auto simp: message_step_def split: prod.splits sum.splits if_splits)

lemma message_step_empty:
  assumes "derive_text m = []"
    and "\<forall>f\<in>set (files m). \<not> truthy (url_private_download f) \<or> \<not> supported (or_empty (mimetype f))"
  shows "message_step get m cs w = (Inr cs, w)"
  using assms by (simp add: message_step_def initial_parts_def files_loop_skip)

lemma contents_loop_empty:
  assumes "\<forall>m\<in>set ms. derive_text m = [] \<and>
     (\<forall>f\<in>set (files m). \<not> truthy (url_private_download f) \<or> \<not> supported (or_empty (mimetype f)))"
  shows "contents_loop get ms cs w = (Inr cs, w)"
  using assms by (induction ms) (simp_all add: message_step_empty)

lemma contents_loop_turns:
  assumes "contents_loop get ms cs w = (Inr cs', w')"
  shows "\<exists>turns.
      list_all2 (\<lambda>m t. (t = [] \<or> (\<exists>ps. ps \<noteq> [] \<and> t = [\<lparr>role = role_of m, parts = ps\<rparr>]))
                      \<and> (\<exists>w0 w1. message_step get m [] w0 = (Inr t, w1))) ms turns
    \<and> cs' = cs @ concat turns"
  using assms
proof (induction ms arbitrary: cs w)
  case Nil
  then show ?case by simp
next
  case (Cons m ms)
  from Cons.prems obtain cs1 w1 where
    step: "message_step get m cs w = (Inr cs1, w1)" and
    rest: "contents_loop get ms cs1 w1 = (Inr cs', w')"
    by (auto split: prod.splits sum.splits)
  from step obtain t where t: "message_step get m [] w = (Inr t, w1)" and cs1: "cs1 = cs @ t"
    by (subst (asm) message_step_shift) (auto split: prod.splits sum.splits)
  from Cons.IH [OF rest] obtain turns where
    all: "list_all2 (\<lambda>m t. (t = [] \<or> (\<exists>ps. ps \<noteq> [] \<and> t = [\<lparr>role = role_of m, parts = ps\<rparr>]))
                      \<and> (\<exists>w0 w1. message_step get m [] w0 = (Inr t, w1))) ms turns"
    and cs': "cs' = cs1 @ concat turns"
    by blast
  have here: "(t = [] \<or> (\<exists>ps. ps \<noteq> [] \<and> t = [\<lparr>role = role_of m, parts = ps\<rparr>]))
      \<and> (\<exists>w0 w1. message_step get m [] w0 = (Inr t, w1))"
    using t message_step_turn [OF t] by blast
  have "list_all2 (\<lambda>m t. (t = [] \<or> (\<exists>ps. ps \<noteq> [] \<and> t = [\<lparr>role = role_of m, parts = ps\<rparr>]))
                      \<and> (\<exists>w0 w1. message_step get m [] w0 = (Inr t, w1))) (m # ms) (t # turns)"
    using here all by simp
  moreover have "cs' = cs @ concat (t # turns)"
    using cs' cs1 by simp
  ultimately show ?case by blast
qed

lemma build_contents_turns:
  assumes "build_contents_from_thread get msgs w = (Inr contents, w')"
  shows "\<exists>turns.
      list_all2 (\<lambda>m t. (t = [] \<or> (\<exists>ps. ps \<noteq> [] \<and> t = [\<lparr>role = role_of m, parts = ps\<rparr>]))
                      \<and> (\<exists>w0 w1. message_step get m [] w0 = (Inr t, w1))) (sort_key ts msgs) turns
    \<and> contents = (if concat turns = [] then [no_content] else concat turns)"
proof -
  from assms obtain cs where
    loop: "contents_loop get (sort_key ts msgs) [] w = (Inr cs, w')" and
    contents: "contents = (if cs = [] then [no_content] else cs)"
    by (auto simp: build_contents_from_thread_def split: prod.splits sum.splits)
  from contents_loop_turns [OF loop] contents show ?thesis by auto
qed

text \<open>
  C6. When the assembly returns, the turns are the contributions of the messages taken in
  the order of \<open>sorted\<close>, each message contributing no turn or the one turn of its role that
  its body of the loop builds, with at least one part (the placeholder turn stands for no
  contribution at all). That order is ascending in the timestamp, strictly so when the
  timestamps are distinct, and messages of equal timestamp keep the order of the input.
\<close>

theorem turn_order:
  assumes "build_contents_from_thread get msgs w = (Inr contents, w')"
  shows "\<exists>turns.
      list_all2 (\<lambda>m t. (t = [] \<or> (\<exists>ps. ps \<noteq> [] \<and> t = [\<lparr>role = role_of m, parts = ps\<rparr>]))
                      \<and> (\<exists>w0 w1. message_step get m [] w0 = (Inr t, w1))) (sort_key ts msgs) turns
    \<and> contents = (if concat turns = [] then [no_content] else concat turns)
    \<and> sorted (map ts (sort_key ts msgs))
    \<and> (distinct (map ts msgs) \<longrightarrow> sorted_wrt (<) (map ts (sort_key ts msgs)))
    \<and> (\<forall>k. filter (\<lambda>m. ts m = k) (sort_key ts msgs) = filter (\<lambda>m. ts m = k) msgs)
    \<and> set (sort_key ts msgs) = set msgs
    \<and> length (sort_key ts msgs) = length msgs"
proof -
  have strict: "sorted_wrt (<) (map ts (sort_key ts msgs))" if "distinct (map ts msgs)"
  proof -
    from that have "distinct (map ts (sort_key ts msgs))"
      by (simp add: distinct_map)
    then show ?thesis by (simp add: strict_sorted_iff)
  qed
  have stable: "\<forall>k. filter (\<lambda>m. ts m = k) (sort_key ts msgs) = filter (\<lambda>m. ts m = k) msgs"
    by (simp add: sort_key_stable)
  from build_contents_turns [OF assms] strict stable show ?thesis
    by auto
qed

text \<open>
  The thread \<open>example_thread\<close>: the bare mention gives no turn, and the two messages of
  timestamp 1 keep their order.
\<close>

theorem turn_order_witness:
  "build_contents_from_thread get_timeout example_thread 0 = (Inr example_turns, 0)
   \<and> map ts (sort_key ts example_thread) = [1, 1, 2, 3]
   \<and> (\<exists>turns.
        list_all2 (\<lambda>m t. (t = [] \<or> (\<exists>ps. ps \<noteq> [] \<and> t = [\<lparr>role = role_of m, parts = ps\<rparr>]))
                        \<and> (\<exists>w0 w1. message_step get_timeout m [] w0 = (Inr t, w1)))
          (sort_key ts example_thread) turns
      \<and> example_turns = (if concat turns = [] then [no_content] else concat turns))"
proof -
  have run: "build_contents_from_thread get_timeout example_thread 0 = (Inr example_turns, 0)"
    by (simp add: example_thread_def example_turns_def build_contents_from_thread_def
        message_step_def initial_parts_def derive_text_def strip_def isspace_def or_empty_def
        truthy_def role_of_def is_bot_def)
  have keys: "map ts (sort_key ts example_thread) = [1, 1, 2, 3]"
    by (simp add: example_thread_def)
  from turn_order [OF run] run keys show ?thesis by blast
qed

text \<open>
  C8. When every message has an empty derived text and only files that are skipped (no
  URL, or a media type that is not admitted), and so also when there is no message, the
  assembly returns the single turn of role \<open>user\<close> whose only part is the text
  \<open>(no content)\<close>. Whenever the assembly returns, its result is not empty and none of its
  turns has an empty list of parts.
\<close>

theorem empty_thread_fallback:
  "((\<forall>m\<in>set msgs. derive_text m = [] \<and>
        (\<forall>f\<in>set (files m). \<not> truthy (url_private_download f) \<or> \<not> supported (or_empty (mimetype f))))
     \<longrightarrow> build_contents_from_thread get msgs w =
           (Inr [\<lparr>role = ustr ''user'', parts = [Text (ustr ''(no content)'')]\<rparr>], w))
   \<and> (build_contents_from_thread get msgs w = (Inr contents, w')
     \<longrightarrow> contents \<noteq> [] \<and> (\<forall>c\<in>set contents. parts c \<noteq> []))"
proof (intro conjI impI)
  assume "\<forall>m\<in>set msgs. derive_text m = [] \<and>
        (\<forall>f\<in>set (files m). \<not> truthy (url_private_download f) \<or> \<not> supported (or_empty (mimetype f)))"
  then have "contents_loop get (sort_key ts msgs) [] w = (Inr [], w)"
    by (intro contents_loop_empty) simp
  then show "build_contents_from_thread get msgs w =
           (Inr [\<lparr>role = ustr ''user'', parts = [Text (ustr ''(no content)'')]\<rparr>], w)"
    by (simp add: build_contents_from_thread_def no_content_def)
next
  assume run: "build_contents_from_thread get msgs w = (Inr contents, w')"
  from build_contents_turns [OF run] obtain turns where
    all: "list_all2 (\<lambda>m t. (t = [] \<or> (\<exists>ps. ps \<noteq> [] \<and> t = [\<lparr>role = role_of m, parts = ps\<rparr>]))
                      \<and> (\<exists>w0 w1. message_step get m [] w0 = (Inr t, w1))) (sort_key ts msgs) turns"
    and contents: "contents = (if concat turns = [] then [no_content] else concat turns)"
    by blast
  show "contents \<noteq> []" using contents by simp
  have "parts c \<noteq> []" if "c \<in> set (concat turns)" for c
  proof -
    from that obtain t where t: "t \<in> set turns" "c \<in> set t" by auto
    from t(1) obtain i where i: "i < length turns" "t = turns ! i"
      by (auto simp: in_set_conv_nth)
    with all have
      "t = [] \<or> (\<exists>ps. ps \<noteq> [] \<and> t = [\<lparr>role = role_of (sort_key ts msgs ! i), parts = ps\<rparr>])"
      by (simp add: list_all2_conv_all_nth)
    with t(2) show ?thesis by auto
  qed
  moreover have "parts no_content \<noteq> []" by (simp add: no_content_def)
  ultimately show "\<forall>c\<in>set contents. parts c \<noteq> []"
    using contents by (auto split: if_splits)
qed

text \<open>
  The empty thread, and a thread of one message with a bare mention, a zip archive and a PNG
  image without URL.
\<close>

theorem empty_thread_fallback_witness:
  "build_contents_from_thread get_timeout ([] :: nat message list) 0
     = (Inr [\<lparr>role = ustr ''user'', parts = [Text (ustr ''(no content)'')]\<rparr>], 0)
   \<and> build_contents_from_thread get_timeout
       [\<lparr>ts = 1 :: nat, bot_id = None, subtype = None, mtext = Some (ustr ''<@U1>  ''), blocks = None,
         files = [\<lparr>mimetype = Some (ustr ''application/zip''), url_private_download = Some (ustr ''z'')\<rparr>,
                  \<lparr>mimetype = Some (ustr ''image/png''), url_private_download = None\<rparr>]\<rparr>] 0
     = (Inr [\<lparr>role = ustr ''user'', parts = [Text (ustr ''(no content)'')]\<rparr>], 0)"
  using
    empty_thread_fallback [of "[] :: nat message list" get_timeout 0]
    empty_thread_fallback [of
       "[\<lparr>ts = 1 :: nat, bot_id = None, subtype = None, mtext = Some (ustr ''<@U1>  ''), blocks = None,
         files = [\<lparr>mimetype = Some (ustr ''application/zip''), url_private_download = Some (ustr ''z'')\<rparr>,
                  \<lparr>mimetype = Some (ustr ''image/png''), url_private_download = None\<rparr>]\<rparr>]"
       get_timeout 0]
  by (simp add: derive_text_def strip_def isspace_def or_empty_def truthy_def supported_def)

section \<open>Properties of \<open>handle_mention\<close>\<close>





text \<open>
  C9. When the model answers and every chunk of the rendered text is empty, the chunks are
  replaced by one non-empty chunk, \<open>Here are your results from Gemini.\<close> when there are
  images and \<open>(no response content)\<close> when there are none, and the handler delivers that one
  chunk followed by every rendered image, in order and numbered from 1.
\<close>

theorem all_empty_substitution:
  assumes "build_contents_from_thread get msgs w = (Inr contents, w1)"
    and "call_gemini contents w1 = (Inr gemini_response, w2)"
    and "format_model_response gemini_response = (reply_text, reply_images)"
    and "split_text reply_text 3000 = Inr chunks"
    and "list_all (\<lambda>chunk. chunk = []) chunks"
  shows "\<exists>placeholder.
      substitute_empty chunks reply_images = [placeholder]
    \<and> placeholder \<noteq> []
    \<and> placeholder = (if reply_images \<noteq> [] then ustr ''Here are your results from Gemini.''
                     else ustr ''(no response content)'')
    \<and> handle_mention get call_gemini msgs w =
        (Inr (Say placeholder #
              map (\<lambda>(idx, image_bytes). FilesUpload idx image_bytes)
                (zip [1 ..< Suc (length reply_images)] reply_images)), w2)"
  using assms
  by (auto simp: substitute_empty_def handle_mention_def deliver_def)

text \<open>
  A response without parts, and a response whose only part is the image \<open>picture\<close>.
\<close>

theorem all_empty_substitution_witness:
  "handle_mention get_timeout (gemini_reply \<lparr>gparts = [], gtext = None\<rparr>) ([] :: nat message list) 0
     = (Inr [Say (ustr ''(no response content)'')], 0)
   \<and> handle_mention get_timeout
       (gemini_reply \<lparr>gparts = [\<lparr>thought = None, rtext = None, as_image = Some picture\<rparr>], gtext = None\<rparr>)
       ([] :: nat message list) 0
     = (Inr [Say (ustr ''Here are your results from Gemini.''), FilesUpload 1 [137, 80]], 0)"
  using
    all_empty_substitution [of get_timeout "[] :: nat message list" 0 "[no_content]" 0
      "gemini_reply \<lparr>gparts = [], gtext = None\<rparr>" "\<lparr>gparts = [], gtext = None\<rparr>" 0 "[]" "[]" "[[]]"]
    all_empty_substitution [of get_timeout "[] :: nat message list" 0 "[no_content]" 0
      "gemini_reply \<lparr>gparts = [\<lparr>thought = None, rtext = None, as_image = Some picture\<rparr>], gtext = None\<rparr>"
      "\<lparr>gparts = [\<lparr>thought = None, rtext = None, as_image = Some picture\<rparr>], gtext = None\<rparr>"
      0 "[]" "[[137, 80]]" "[[]]"]
  by (simp add: build_contents_from_thread_def gemini_reply_def format_model_response_def
      split_text_def truthy_def or_empty_def image_bytes_def picture_def)

end
